theory Spec2Isabelle
  imports Main "HOL-Library.Word" "HOL-Library.Multiset"
begin

section \<open>DoubleCountSanityCheck: the data the module reads\<close>

text \<open>
  The module \<^verbatim>\<open>DoubleCountSanityCheck_module.cc\<close> reads three collections of one event
  (PFParticles, Clusters, Hits) and two association queries (PFParticle to Clusters, Cluster to
  Hits). No field of a PFParticle, Cluster or Hit is read: the code only handles
  \<^verbatim>\<open>art::Ptr\<close> values. An \<^verbatim>\<open>art::Ptr\<close> names an element of a collection by the collection's
  product id and the element's index (its key); two of them are equal when both agree, and
  that equality is the one the \<^verbatim>\<open>std::unordered_map\<close> of the module uses for its keys.
\<close>

type_synonym ProductID = nat

datatype Ptr = Ptr (productID: ProductID) (key: nat)

text \<open>
  An event, as \<^verbatim>\<open>analyze\<close> sees it once the three handles of lines 82 to 91 are filled. A
  collection is given by the product id of its handle and its size. An association query
  (\<^verbatim>\<open>art::FindManyP\<close>, lines 94 and 97) is a table of rows, the row of an element holding the
  pointers associated with it, in relation order. The size of the cluster collection is
  never read: the clusters are the rows of the second query.
\<close>

record Event =
  pfParticleHandle_id :: ProductID
  pfParticleHandle_size :: nat
  hitHandle_id :: ProductID
  hitHandle_size :: nat
  pfParticleToClusterAssoc :: "Ptr list list"
  clusterToHitAssoc :: "Ptr list list"

text \<open>
  The two ways \<^verbatim>\<open>analyze\<close> can be left by an exception: \<^verbatim>\<open>std::out_of_range\<close>, from the
  bounds-checked \<^verbatim>\<open>at\<close> of an association query, and the \<^verbatim>\<open>std::logic_error\<close> thrown at the
  end of \<^verbatim>\<open>analyze\<close>.
\<close>

datatype exception = out_of_range | logic_error

text \<open>
  \<^verbatim>\<open>art::FindManyP\<close> belongs to the framework (\<^verbatim>\<open>canvas/Persistency/Common/FindManyP.h\<close>),
  not to this module; the module only calls its \<^verbatim>\<open>at\<close>. The model takes \<^verbatim>\<open>at(i)\<close> as the
  bounds-checked access of the table of rows, as \<^verbatim>\<open>std::vector::at\<close> is: it throws
  \<^verbatim>\<open>std::out_of_range\<close> when there is no row \<open>i\<close>.
\<close>

definition FindManyP_at :: "Ptr list list \<Rightarrow> nat \<Rightarrow> exception + Ptr list" where
  "FindManyP_at bColl i = (if i < length bColl then Inr (bColl ! i) else Inl out_of_range)"

text \<open>
  \<^verbatim>\<open>hitToPFParticlesMap\<close>: from a hit pointer to the vector of PFParticle pointers pushed for
  it. The code never iterates over the map, so the order of its buckets is not observable.
\<close>

type_synonym HitToPFParticlesMap = "Ptr \<rightharpoonup> Ptr list"

text \<open>
  \<^verbatim>\<open>hitToPFParticlesMap[pHit]\<close>: \<^verbatim>\<open>operator[]\<close> inserts an empty vector when the key is absent
  and yields the vector stored for the key. The model returns the map after the access and
  the vector.
\<close>

definition subscript :: "HitToPFParticlesMap \<Rightarrow> Ptr \<Rightarrow> HitToPFParticlesMap \<times> Ptr list" where
  "subscript m pHit = (case m pHit of None \<Rightarrow> (m(pHit \<mapsto> []), []) | Some v \<Rightarrow> (m, v))"

text \<open>Line 110: \<^verbatim>\<open>hitToPFParticlesMap[pHit].push_back(pPFParticle)\<close>.\<close>

definition push_back_at :: "HitToPFParticlesMap \<Rightarrow> Ptr \<Rightarrow> Ptr \<Rightarrow> HitToPFParticlesMap" where
  "push_back_at m pHit pPFParticle =
     (case subscript m pHit of (m', v) \<Rightarrow> m'(pHit \<mapsto> v @ [pPFParticle]))"

section \<open>The three nested loops that build the map (lines 100 to 113)\<close>

text \<open>Lines 107 to 111: the loop over the hits of one cluster.\<close>

fun hit_loop :: "Ptr \<Rightarrow> Ptr list \<Rightarrow> HitToPFParticlesMap \<Rightarrow> HitToPFParticlesMap" where
  "hit_loop pPFParticle [] m = m"
| "hit_loop pPFParticle (pHit # hits) m = hit_loop pPFParticle hits (push_back_at m pHit pPFParticle)"

text \<open>
  Lines 105 to 112: the loop over the clusters of one PFParticle. The row of a cluster is
  fetched with \<^verbatim>\<open>clusterToHitAssoc.at(pCluster.key())\<close>: only the key of the cluster pointer is
  used, and the access can throw.
\<close>

fun cluster_loop ::
  "Event \<Rightarrow> Ptr \<Rightarrow> Ptr list \<Rightarrow> HitToPFParticlesMap \<Rightarrow> exception + HitToPFParticlesMap" where
  "cluster_loop evt pPFParticle [] m = Inr m"
| "cluster_loop evt pPFParticle (pCluster # clusters) m =
     (case FindManyP_at (clusterToHitAssoc evt) (key pCluster) of
        Inl e \<Rightarrow> Inl e
      | Inr hits \<Rightarrow> cluster_loop evt pPFParticle clusters (hit_loop pPFParticle hits m))"

text \<open>
  Lines 101 to 113: the loop over the PFParticles. The counter \<open>i\<close> is an \<^verbatim>\<open>unsigned int\<close>
  compared with the (wider) size of the collection: with \<open>2 ^ 32\<close> PFParticles or more the
  counter wraps to 0 before it reaches the size and the loop does not end by itself, so the
  loop is a partial function and \<open>None\<close> stands for not returning.
\<close>

partial_function (option) pfparticle_loop ::
  "Event \<Rightarrow> 32 word \<Rightarrow> HitToPFParticlesMap \<Rightarrow> (exception + HitToPFParticlesMap) option" where
  "pfparticle_loop evt i m =
     (if unat i < pfParticleHandle_size evt then
        (let pPFParticle = Ptr (pfParticleHandle_id evt) (unat i) in
         case FindManyP_at (pfParticleToClusterAssoc evt) (key pPFParticle) of
           Inl e \<Rightarrow> Some (Inl e)
         | Inr clusters \<Rightarrow>
             (case cluster_loop evt pPFParticle clusters m of
                Inl e \<Rightarrow> Some (Inl e)
              | Inr m' \<Rightarrow> pfparticle_loop evt (i + 1) m'))
      else Some (Inr m))"

section \<open>The scan over the hits (lines 116 to 137)\<close>

text \<open>
  What \<^verbatim>\<open>analyze\<close> writes to \<^verbatim>\<open>std::cout\<close>: one line per hit (line 126, the key of the hit
  and the size of its vector) and the closing line (line 134, \<open>nHits\<close> and
  \<open>nMultiAssociatedHits\<close>). The numbers are kept, not their decimal text.
\<close>

datatype cout_line =
    HitLine nat nat
  | SummaryLine nat nat

text \<open>
  Lines 118 to 132. \<open>nHits\<close>, \<open>i\<close> and \<open>nMultiAssociatedHits\<close> are \<^verbatim>\<open>unsigned int\<close>. The
  state is the map (the lookup of line 123 can insert into it), the counter of
  multi-associated hits and the lines written so far.
\<close>

function audit_loop ::
  "Event \<Rightarrow> 32 word \<Rightarrow> 32 word \<Rightarrow> HitToPFParticlesMap \<times> 32 word \<times> cout_line list
     \<Rightarrow> HitToPFParticlesMap \<times> 32 word \<times> cout_line list" where
  "audit_loop evt nHits i (m, nMultiAssociatedHits, out) =
     (if i < nHits then
        (let pHit = Ptr (hitHandle_id evt) (unat i);
             (m', associatedPFParticles) = subscript m pHit;
             nPFParticles = length associatedPFParticles;
             out' = out @ [HitLine (key pHit) nPFParticles]
         in if nPFParticles \<le> 1
            then audit_loop evt nHits (i + 1) (m', nMultiAssociatedHits, out')
            else audit_loop evt nHits (i + 1) (m', nMultiAssociatedHits + 1, out'))
      else (m, nMultiAssociatedHits, out))"
  by pat_completeness auto
termination
proof (relation "measure (\<lambda>(evt, nHits, i, s). unat nHits - unat i)")
  show "wf (measure (\<lambda>(evt, nHits, i, s). unat nHits - unat i))"
    by simp
next
  fix evt :: "Event" and nHits i :: "32 word" and m :: HitToPFParticlesMap
    and nMultiAssociatedHits :: "32 word" and out :: "cout_line list"
    and x xa y xb xc
  assume "i < nHits"
  then have lt: "unat i < unat nHits"
    by (simp add: word_less_nat_alt)
  moreover have "unat nHits < 2 ^ 32"
    using unsigned_less [of nHits] by simp
  ultimately have suc: "unat (i + 1) = Suc (unat i)"
    by (simp add: unat_word_ariths)
  from lt suc show "((evt, nHits, i + 1, xa, nMultiAssociatedHits, xc),
              evt, nHits, i, m, nMultiAssociatedHits, out)
             \<in> measure (\<lambda>(evt, nHits, i, s). unat nHits - unat i)"
    by simp
  from lt suc show "((evt, nHits, i + 1, xa, nMultiAssociatedHits + 1, xc),
         evt, nHits, i, m, nMultiAssociatedHits, out)
        \<in> measure (\<lambda>(evt, nHits, i, s). unat nHits - unat i)"
    by simp
qed

declare audit_loop.simps [simp del]

declare pfparticle_loop.simps [code]

text \<open>
  What a caller of \<^verbatim>\<open>analyze\<close> observes: the lines written and the exception that left the
  function, if any.
\<close>

record Outcome =
  stdout :: "cout_line list"
  thrown :: "exception option"

text \<open>
  \<^verbatim>\<open>analyze\<close>, from the construction of the map to the throw of line 137. \<open>nHits\<close> is the
  size of the hit collection converted to \<^verbatim>\<open>unsigned int\<close> (line 116). An exception of the
  first loops leaves the function before anything is written.
\<close>

definition analyze :: "Event \<Rightarrow> Outcome option" where
  "analyze evt =
     (case pfparticle_loop evt 0 Map.empty of
        None \<Rightarrow> None
      | Some (Inl e) \<Rightarrow> Some \<lparr>stdout = [], thrown = Some e\<rparr>
      | Some (Inr hitToPFParticlesMap) \<Rightarrow>
          (let nHits = (of_nat (hitHandle_size evt) :: 32 word);
               (m', nMultiAssociatedHits, out) = audit_loop evt nHits 0 (hitToPFParticlesMap, 0, []);
               out' = out @ [SummaryLine (unat nHits) (unat nMultiAssociatedHits)]
           in Some \<lparr>stdout = out',
                    thrown = (if nMultiAssociatedHits \<noteq> 0 then Some logic_error else None)\<rparr>))"

section \<open>The vocabulary of the specification\<close>

text \<open>
  The set of PFParticles of a hit is the vector the map holds for it; a hit that is not a
  key of the map has none.
\<close>

definition lookup :: "HitToPFParticlesMap \<Rightarrow> Ptr \<Rightarrow> Ptr list" where
  "lookup m pHit = (case m pHit of None \<Rightarrow> [] | Some v \<Rightarrow> v)"

text \<open>
  The events the properties are stated for: both collections can be counted by an
  \<^verbatim>\<open>unsigned int\<close>; the PFParticle query has one row per PFParticle, as \<^verbatim>\<open>art::FindManyP\<close>
  builds it; and every cluster pointer of a PFParticle names a row of the cluster query.
\<close>

definition clusters_in_range :: "Event \<Rightarrow> bool" where
  "clusters_in_range evt =
     (\<forall>row \<in> set (pfParticleToClusterAssoc evt).
        \<forall>pCluster \<in> set row. key pCluster < length (clusterToHitAssoc evt))"

definition well_formed :: "Event \<Rightarrow> bool" where
  "well_formed evt =
     (pfParticleHandle_size evt < 2 ^ 32 \<and> hitHandle_size evt < 2 ^ 32 \<and>
      length (pfParticleToClusterAssoc evt) = pfParticleHandle_size evt \<and>
      clusters_in_range evt)"

text \<open>
  The two-hop relation of the input: the hit \<open>pHit\<close> is in the hit list of some cluster
  of the cluster list of the PFParticle \<open>pPFParticle\<close> of the event.
\<close>

definition associated :: "Event \<Rightarrow> Ptr \<Rightarrow> Ptr \<Rightarrow> bool" where
  "associated evt pHit pPFParticle =
     (productID pPFParticle = pfParticleHandle_id evt \<and>
      key pPFParticle < pfParticleHandle_size evt \<and>
      (\<exists>pCluster \<in> set (pfParticleToClusterAssoc evt ! key pPFParticle).
         pHit \<in> set (clusterToHitAssoc evt ! key pCluster)))"

text \<open>
  The traversal as the specification words it: each PFParticle in input order, each of its
  clusters in relation order, each hit of the cluster in relation order, gives one visit
  (hit, PFParticle). The sequence of a hit is the PFParticles of its visits, in that order,
  and a hit that is never visited has no entry.
\<close>

definition cluster_visits :: "Event \<Rightarrow> Ptr \<Rightarrow> Ptr \<Rightarrow> (Ptr \<times> Ptr) list" where
  "cluster_visits evt pPFParticle pCluster =
     map (\<lambda>pHit. (pHit, pPFParticle)) (clusterToHitAssoc evt ! key pCluster)"

definition pfparticle_visits :: "Event \<Rightarrow> nat \<Rightarrow> (Ptr \<times> Ptr) list" where
  "pfparticle_visits evt i =
     concat (map (cluster_visits evt (Ptr (pfParticleHandle_id evt) i))
                 (pfParticleToClusterAssoc evt ! i))"

definition visits :: "Event \<Rightarrow> (Ptr \<times> Ptr) list" where
  "visits evt = concat (map (pfparticle_visits evt) [0..<pfParticleHandle_size evt])"

definition sequences_of :: "(Ptr \<times> Ptr) list \<Rightarrow> HitToPFParticlesMap" where
  "sequences_of vs =
     (\<lambda>pHit. if pHit \<in> fst ` set vs
             then Some (map snd (filter (\<lambda>v. fst v = pHit) vs)) else None)"

text \<open>
  The closed form of the scan for a given map: the hits of the list whose vector has more
  than one element, and what \<^verbatim>\<open>analyze\<close> writes and throws. The scan covers the first
  \<open>nHits\<close> hits, \<open>nHits\<close> being the size of the hit list as an \<^verbatim>\<open>unsigned int\<close>.
\<close>

definition over_associated :: "Event \<Rightarrow> HitToPFParticlesMap \<Rightarrow> nat list" where
  "over_associated evt m =
     filter (\<lambda>i. 1 < length (lookup m (Ptr (hitHandle_id evt) i)))
            [0..<hitHandle_size evt mod 2 ^ 32]"

definition audit_outcome :: "Event \<Rightarrow> HitToPFParticlesMap \<Rightarrow> Outcome" where
  "audit_outcome evt m =
     \<lparr>stdout = map (\<lambda>i. HitLine i (length (lookup m (Ptr (hitHandle_id evt) i))))
                    [0..<hitHandle_size evt mod 2 ^ 32]
               @ [SummaryLine (hitHandle_size evt mod 2 ^ 32) (length (over_associated evt m))],
      thrown = (if over_associated evt m = [] then None else Some logic_error)\<rparr>"

text \<open>
  The hits of the hit list are the pointers into the hit collection with a key below its
  size. \<open>references_stray_hit\<close>: some cluster's hit list holds a pointer that is not a hit
  of the list. \<open>drop_stray_hits\<close> removes such pointers from every cluster's hit list.
\<close>

definition in_hit_list :: "Event \<Rightarrow> Ptr \<Rightarrow> bool" where
  "in_hit_list evt pHit = (productID pHit = hitHandle_id evt \<and> key pHit < hitHandle_size evt)"

definition references_stray_hit :: "Event \<Rightarrow> bool" where
  "references_stray_hit evt =
     (\<exists>row \<in> set (clusterToHitAssoc evt). \<exists>pHit \<in> set row. \<not> in_hit_list evt pHit)"

definition drop_stray_hits :: "Event \<Rightarrow> Event" where
  "drop_stray_hits evt =
     evt\<lparr>clusterToHitAssoc := map (filter (in_hit_list evt)) (clusterToHitAssoc evt)\<rparr>"


section \<open>Events of the specification's scenarios\<close>

text \<open>
  Product id 1 is the PFParticle collection, 2 the hit collection, 3 the cluster collection.
  \<^item> \<open>one_owner\<close>: three hits, one PFParticle owning one cluster that holds all three.
  \<^item> \<open>two_owners\<close>: two hits and two PFParticles with one cluster each, the first cluster
    holding hit 0 and the second holding hits 0 and 1.
  \<^item> \<open>two_owners_swapped\<close>: the same with the two PFParticles in the other order.
  \<^item> \<open>same_owner_twice\<close>: one hit, one PFParticle with two clusters that both hold the hit.
  \<^item> \<open>split_owner\<close>: two hits; the first PFParticle has two clusters that both hold hit 0,
    the second PFParticle has one cluster that holds hit 1.
  \<^item> \<open>overlapping_clusters\<close>: three hits, one PFParticle with two clusters, the first
    holding hits 0 and 1 and the second holding hits 1 and 2.
  \<^item> \<open>stray_hit\<close>: one hit; the only cluster refers (twice) to a hit with key 7.
  \<^item> \<open>stray_hit_two_owners\<close>: \<open>two_owners\<close> with a reference to a hit with key 9 added to
    the first cluster.
  \<^item> \<open>stray_cluster\<close>: one cluster; the PFParticle refers to a cluster with key 4.
\<close>

definition one_owner :: Event where
  "one_owner =
     \<lparr>pfParticleHandle_id = 1, pfParticleHandle_size = 1, hitHandle_id = 2, hitHandle_size = 3,
      pfParticleToClusterAssoc = [[Ptr 3 0]],
      clusterToHitAssoc = [[Ptr 2 0, Ptr 2 1, Ptr 2 2]]\<rparr>"

definition two_owners :: Event where
  "two_owners =
     \<lparr>pfParticleHandle_id = 1, pfParticleHandle_size = 2, hitHandle_id = 2, hitHandle_size = 2,
      pfParticleToClusterAssoc = [[Ptr 3 0], [Ptr 3 1]],
      clusterToHitAssoc = [[Ptr 2 0], [Ptr 2 0, Ptr 2 1]]\<rparr>"

definition two_owners_swapped :: Event where
  "two_owners_swapped = two_owners\<lparr>pfParticleToClusterAssoc := [[Ptr 3 1], [Ptr 3 0]]\<rparr>"

definition same_owner_twice :: Event where
  "same_owner_twice =
     \<lparr>pfParticleHandle_id = 1, pfParticleHandle_size = 1, hitHandle_id = 2, hitHandle_size = 1,
      pfParticleToClusterAssoc = [[Ptr 3 0, Ptr 3 1]],
      clusterToHitAssoc = [[Ptr 2 0], [Ptr 2 0]]\<rparr>"

definition split_owner :: Event where
  "split_owner =
     \<lparr>pfParticleHandle_id = 1, pfParticleHandle_size = 2, hitHandle_id = 2, hitHandle_size = 2,
      pfParticleToClusterAssoc = [[Ptr 3 0, Ptr 3 1], [Ptr 3 2]],
      clusterToHitAssoc = [[Ptr 2 0], [Ptr 2 0], [Ptr 2 1]]\<rparr>"


definition stray_hit_two_owners :: Event where
  "stray_hit_two_owners =
     two_owners\<lparr>clusterToHitAssoc := [[Ptr 2 0, Ptr 2 9], [Ptr 2 0, Ptr 2 1]]\<rparr>"

definition stray_hit :: Event where
  "stray_hit =
     \<lparr>pfParticleHandle_id = 1, pfParticleHandle_size = 1, hitHandle_id = 2, hitHandle_size = 1,
      pfParticleToClusterAssoc = [[Ptr 3 0]],
      clusterToHitAssoc = [[Ptr 2 7, Ptr 2 7]]\<rparr>"

definition stray_cluster :: Event where
  "stray_cluster =
     \<lparr>pfParticleHandle_id = 1, pfParticleHandle_size = 1, hitHandle_id = 2, hitHandle_size = 1,
      pfParticleToClusterAssoc = [[Ptr 3 4]],
      clusterToHitAssoc = [[Ptr 2 0]]\<rparr>"

section \<open>The map that the three loops build\<close>

lemma lookup_sequences_of: "lookup (sequences_of vs) h = map snd (filter (\<lambda>v. fst v = h) vs)"
proof (cases "h \<in> fst ` set vs")
  case True
  then show ?thesis by (simp add: lookup_def sequences_of_def)
next
  case False
  then have "filter (\<lambda>v. fst v = h) vs = []"
    by (auto simp: filter_empty_conv)
  with False show ?thesis by (simp add: lookup_def sequences_of_def)
qed

lemma sequences_of_Nil: "sequences_of [] = Map.empty"
  by (simp add: sequences_of_def)

lemma push_back_at_sequences_of:
  "push_back_at (sequences_of vs) h p = sequences_of (vs @ [(h, p)])"
proof
  fix x
  show "push_back_at (sequences_of vs) h p x = sequences_of (vs @ [(h, p)]) x"
    by (auto simp: push_back_at_def subscript_def sequences_of_def filter_empty_conv
             split: option.splits)
qed

lemma hit_loop_sequences_of:
  "hit_loop p hits (sequences_of vs) = sequences_of (vs @ map (\<lambda>h. (h, p)) hits)"
  by (induction hits arbitrary: vs) (simp_all add: push_back_at_sequences_of)

lemma cluster_loop_sequences_of:
  "\<forall>c \<in> set clusters. key c < length (clusterToHitAssoc evt) \<Longrightarrow>
   cluster_loop evt p clusters (sequences_of vs) =
     Inr (sequences_of (vs @ concat (map (cluster_visits evt p) clusters)))"
  by (induction clusters arbitrary: vs)
     (simp_all add: FindManyP_at_def hit_loop_sequences_of cluster_visits_def)

lemma cluster_loop_throws:
  "\<not> (\<forall>c \<in> set clusters. key c < length (clusterToHitAssoc evt)) \<Longrightarrow>
   cluster_loop evt p clusters m = Inl out_of_range"
  by (induction clusters arbitrary: m) (auto simp: FindManyP_at_def)

lemma cluster_loop_Inl: "cluster_loop evt p clusters m = Inl e \<Longrightarrow> e = out_of_range"
  by (induction clusters arbitrary: m) (auto simp: FindManyP_at_def split: if_splits)

lemma unat_of_nat32: "j < 2 ^ 32 \<Longrightarrow> unat (of_nat j :: 32 word) = j"
  by (simp add: unat_of_nat)

text \<open>
  The outer loop from the counter value \<open>j\<close> on, when the counter cannot wrap: it ends, with
  the map of all visits or with the exception of the first cluster pointer out of range.
\<close>

lemma pfparticle_loop_from:
  assumes size: "pfParticleHandle_size evt < 2 ^ 32"
    and rows: "length (pfParticleToClusterAssoc evt) = pfParticleHandle_size evt"
  shows "j \<le> pfParticleHandle_size evt \<Longrightarrow>
    pfparticle_loop evt (of_nat j) (sequences_of vs) =
      Some (if \<forall>i \<in> {j..<pfParticleHandle_size evt}.
                 \<forall>c \<in> set (pfParticleToClusterAssoc evt ! i). key c < length (clusterToHitAssoc evt)
            then Inr (sequences_of (vs @ concat (map (pfparticle_visits evt) [j..<pfParticleHandle_size evt])))
            else Inl out_of_range)"
proof (induction "pfParticleHandle_size evt - j" arbitrary: j vs)
  case 0
  then have "j = pfParticleHandle_size evt" by simp
  with size show ?case
    by (subst pfparticle_loop.simps) (simp add: unat_of_nat32)
next
  case (Suc d)
  then have lt: "j < pfParticleHandle_size evt" and d: "d = pfParticleHandle_size evt - Suc j"
    and le: "Suc j \<le> pfParticleHandle_size evt"
    by simp_all
  from lt size have uj: "unat (of_nat j :: 32 word) = j"
    by (simp add: unat_of_nat32)
  have next_i: "(of_nat j :: 32 word) + 1 = of_nat (Suc j)"
    by simp
  have split_all: "\<And>P. (\<forall>i \<in> {j..<pfParticleHandle_size evt}. P i) =
      (P j \<and> (\<forall>i \<in> {Suc j..<pfParticleHandle_size evt}. P i))"
    using lt by (metis atLeastLessThan_iff Suc_le_eq le_less order_refl)
  let ?row = "pfParticleToClusterAssoc evt ! j"
  show ?case
  proof (cases "\<forall>c \<in> set ?row. key c < length (clusterToHitAssoc evt)")
    case True
    have "pfparticle_loop evt (of_nat j) (sequences_of vs) =
          pfparticle_loop evt (of_nat (Suc j)) (sequences_of (vs @ pfparticle_visits evt j))"
      using lt rows True
      by (subst pfparticle_loop.simps)
         (simp add: uj next_i FindManyP_at_def cluster_loop_sequences_of pfparticle_visits_def
               del: of_nat_Suc)
    also have "\<dots> = Some (if \<forall>i \<in> {Suc j..<pfParticleHandle_size evt}.
                 \<forall>c \<in> set (pfParticleToClusterAssoc evt ! i). key c < length (clusterToHitAssoc evt)
            then Inr (sequences_of ((vs @ pfparticle_visits evt j) @
                   concat (map (pfparticle_visits evt) [Suc j..<pfParticleHandle_size evt])))
            else Inl out_of_range)"
      by (rule Suc.hyps(1) [OF d le])
    finally show ?thesis
      using True lt by (simp add: split_all upt_conv_Cons)
  next
    case False
    have "pfparticle_loop evt (of_nat j) (sequences_of vs) = Some (Inl out_of_range)"
      using lt rows cluster_loop_throws [OF False]
      by (subst pfparticle_loop.simps) (simp add: uj FindManyP_at_def)
    with False show ?thesis
      using split_all by simp
  qed
qed

lemma clusters_in_range_nth:
  "length (pfParticleToClusterAssoc evt) = pfParticleHandle_size evt \<Longrightarrow>
   clusters_in_range evt =
     (\<forall>i \<in> {0..<pfParticleHandle_size evt}.
        \<forall>c \<in> set (pfParticleToClusterAssoc evt ! i). key c < length (clusterToHitAssoc evt))"
  unfolding clusters_in_range_def by (auto simp: all_set_conv_all_nth)

lemma resolver_eq:
  assumes "pfParticleHandle_size evt < 2 ^ 32"
    and "length (pfParticleToClusterAssoc evt) = pfParticleHandle_size evt"
  shows "pfparticle_loop evt 0 Map.empty =
     Some (if clusters_in_range evt then Inr (sequences_of (visits evt)) else Inl out_of_range)"
  using pfparticle_loop_from [OF assms, of 0 "[]"]
  by (simp add: sequences_of_Nil visits_def clusters_in_range_nth [OF assms(2)])

text \<open>Whatever the event, the only exception the loops can throw is \<^verbatim>\<open>std::out_of_range\<close>.\<close>

lemma pfparticle_loop_Inl:
  assumes "pfparticle_loop evt i m = Some (Inl e)"
  shows "e = out_of_range"
proof -
  have "r = Inl e \<longrightarrow> e = out_of_range" if run: "pfparticle_loop evt i m = Some r" for r
  proof (rule pfparticle_loop.raw_induct
           [where P = "\<lambda>evt i m r. r = Inl e \<longrightarrow> e = out_of_range", OF _ run])
    fix loop evt i m r
    assume "\<And>evt i m r. loop evt i m = Some r \<Longrightarrow> r = Inl e \<longrightarrow> e = out_of_range"
      and "(if unat i < pfParticleHandle_size evt
            then let pPFParticle = Ptr (pfParticleHandle_id evt) (unat i)
                 in case FindManyP_at (pfParticleToClusterAssoc evt) (key pPFParticle) of
                      Inl e \<Rightarrow> Some (Inl e)
                    | Inr clusters \<Rightarrow>
                        (case cluster_loop evt pPFParticle clusters m of
                           Inl e \<Rightarrow> Some (Inl e)
                         | Inr m' \<Rightarrow> loop evt (i + 1) m')
            else Some (Inr m)) = Some r"
    then show "r = Inl e \<longrightarrow> e = out_of_range"
      by (auto simp: FindManyP_at_def Let_def split: if_splits sum.splits dest: cluster_loop_Inl)
  qed
  with assms show ?thesis by simp
qed

section \<open>The scan in closed form\<close>

lemma subscript_lookup:
  "subscript m h = (m', v) \<Longrightarrow> v = lookup m h \<and> lookup m' = lookup m"
proof (cases "m h")
  case None
  assume "subscript m h = (m', v)"
  with None have "v = []" and "m' = m(h \<mapsto> [])"
    by (simp_all add: subscript_def)
  with None show ?thesis
    by (auto simp: lookup_def fun_eq_iff)
next
  case (Some w)
  assume "subscript m h = (m', v)"
  with Some show ?thesis
    by (simp add: subscript_def lookup_def)
qed

lemma audit_loop_from:
  "j \<le> unat nHits \<Longrightarrow>
   snd (audit_loop evt nHits (of_nat j) (m, k, out)) =
     (k + of_nat (length (filter (\<lambda>i. 1 < length (lookup m (Ptr (hitHandle_id evt) i))) [j..<unat nHits])),
      out @ map (\<lambda>i. HitLine i (length (lookup m (Ptr (hitHandle_id evt) i)))) [j..<unat nHits])"
proof (induction "unat nHits - j" arbitrary: j m k out)
  case 0
  then have "j = unat nHits" by simp
  then have "\<not> (of_nat j :: 32 word) < nHits" by simp
  with \<open>j = unat nHits\<close> show ?case by (simp add: audit_loop.simps)
next
  case (Suc d)
  then have lt: "j < unat nHits" and d: "d = unat nHits - Suc j" and le: "Suc j \<le> unat nHits"
    by simp_all
  have "unat nHits < 2 ^ 32"
    using unsigned_less [of nHits] by simp
  with lt have uj: "unat (of_nat j :: 32 word) = j"
    by (simp add: unat_of_nat32)
  with lt have cond: "(of_nat j :: 32 word) < nHits"
    by (simp add: word_less_nat_alt)
  have next_i: "(of_nat j :: 32 word) + 1 = of_nat (Suc j)"
    by simp
  let ?h = "Ptr (hitHandle_id evt) j"
  obtain m' v where sub: "subscript m ?h = (m', v)"
    by (cases "subscript m ?h")
  then have v: "v = lookup m ?h" and m': "lookup m' = lookup m"
    using subscript_lookup by blast+
  have step: "audit_loop evt nHits (of_nat j) (m, k, out) =
      audit_loop evt nHits (of_nat (Suc j))
        (m', if length v \<le> 1 then k else k + 1, out @ [HitLine j (length v)])"
    using cond sub by (subst audit_loop.simps) (simp add: uj next_i del: of_nat_Suc)
  show ?case
    unfolding step Suc.hyps(1) [OF d le] m'
    using lt by (simp add: upt_conv_Cons v)
qed

lemma audit_eq:
  assumes "audit_loop evt (of_nat (hitHandle_size evt)) 0 (m, 0, []) = (m', k, out)"
  shows "out = map (\<lambda>i. HitLine i (length (lookup m (Ptr (hitHandle_id evt) i))))
                  [0..<hitHandle_size evt mod 2 ^ 32]"
    and "unat k = length (over_associated evt m)"
    and "k = 0 \<longleftrightarrow> over_associated evt m = []"
proof -
  let ?nHits = "of_nat (hitHandle_size evt) :: 32 word"
  have N: "unat ?nHits = hitHandle_size evt mod 2 ^ 32"
    by (simp add: unat_of_nat)
  have "snd (audit_loop evt ?nHits (of_nat 0) (m, 0, [])) =
     (0 + of_nat (length (over_associated evt m)),
      [] @ map (\<lambda>i. HitLine i (length (lookup m (Ptr (hitHandle_id evt) i))))
                  [0..<hitHandle_size evt mod 2 ^ 32])"
    unfolding over_associated_def N [symmetric]
    by (rule audit_loop_from) simp
  with assms have k: "k = of_nat (length (over_associated evt m))"
    and out: "out = map (\<lambda>i. HitLine i (length (lookup m (Ptr (hitHandle_id evt) i))))
                  [0..<hitHandle_size evt mod 2 ^ 32]"
    by simp_all
  have "length (over_associated evt m) \<le> length [0..<hitHandle_size evt mod 2 ^ 32]"
    unfolding over_associated_def by (rule length_filter_le)
  also have "\<dots> < 2 ^ 32" by simp
  finally have small: "length (over_associated evt m) < 2 ^ 32" .
  show "out = map (\<lambda>i. HitLine i (length (lookup m (Ptr (hitHandle_id evt) i))))
                  [0..<hitHandle_size evt mod 2 ^ 32]"
    by (rule out)
  show uk: "unat k = length (over_associated evt m)"
    using small by (simp add: k unat_of_nat32)
  show "k = 0 \<longleftrightarrow> over_associated evt m = []"
    using uk by (simp add: unat_eq_0 [symmetric] del: unat_eq_0)
qed

text \<open>\<^verbatim>\<open>analyze\<close> in terms of what the first loops return.\<close>

lemma analyze_cases:
  "analyze evt =
     (case pfparticle_loop evt 0 Map.empty of
        None \<Rightarrow> None
      | Some (Inl e) \<Rightarrow> Some \<lparr>stdout = [], thrown = Some e\<rparr>
      | Some (Inr m) \<Rightarrow> Some (audit_outcome evt m))"
proof (cases "pfparticle_loop evt 0 Map.empty")
  case None
  then show ?thesis by (simp add: analyze_def)
next
  case (Some r)
  show ?thesis
  proof (cases r)
    case (Inl e)
    with Some show ?thesis by (simp add: analyze_def)
  next
    case (Inr m)
    obtain m' k out where run:
      "audit_loop evt (of_nat (hitHandle_size evt)) 0 (m, 0, []) = (m', k, out)"
      by (cases "audit_loop evt (of_nat (hitHandle_size evt)) 0 (m, 0, [])")
    show ?thesis
      using audit_eq [OF run]
      by (simp add: analyze_def Some Inr run audit_outcome_def unat_of_nat)
  qed
qed

lemma analyze_eq:
  assumes "pfParticleHandle_size evt < 2 ^ 32"
    and "length (pfParticleToClusterAssoc evt) = pfParticleHandle_size evt"
  shows "analyze evt =
     Some (if clusters_in_range evt then audit_outcome evt (sequences_of (visits evt))
           else \<lparr>stdout = [], thrown = Some out_of_range\<rparr>)"
  by (simp add: analyze_cases resolver_eq [OF assms])

lemma in_visits: "(h, p) \<in> set (visits evt) \<longleftrightarrow> associated evt h p"
proof -
  have "(h, p) \<in> set (visits evt) \<longleftrightarrow>
      (\<exists>i < pfParticleHandle_size evt. p = Ptr (pfParticleHandle_id evt) i \<and>
         (\<exists>c \<in> set (pfParticleToClusterAssoc evt ! i). h \<in> set (clusterToHitAssoc evt ! key c)))"
    by (fastforce simp: visits_def pfparticle_visits_def cluster_visits_def)
  also have "\<dots> \<longleftrightarrow> associated evt h p"
    by (cases p) (auto simp: associated_def)
  finally show ?thesis .
qed

lemma in_lookup_sequences_of: "p \<in> set (lookup (sequences_of vs) h) \<longleftrightarrow> (h, p) \<in> set vs"
  by (force simp: lookup_sequences_of)

lemma two_in_list: "x \<in> set xs \<Longrightarrow> y \<in> set xs \<Longrightarrow> x \<noteq> y \<Longrightarrow> 2 \<le> length xs"
proof -
  assume a: "x \<in> set xs" "y \<in> set xs" "x \<noteq> y"
  then have "card {x, y} \<le> card (set xs)"
    by (intro card_mono) auto
  also have "\<dots> \<le> length xs" by (rule card_length)
  finally show ?thesis using a by simp
qed

lemma well_formed_one_owner: "well_formed one_owner"
  by (simp add: well_formed_def clusters_in_range_def one_owner_def)

lemma well_formed_two_owners: "well_formed two_owners"
  by (simp add: well_formed_def clusters_in_range_def two_owners_def)

lemma analyze_two_owners:
  "analyze two_owners =
     Some \<lparr>stdout = [HitLine 0 2, HitLine 1 1, SummaryLine 2 1], thrown = Some logic_error\<rparr>"
  by code_simp
lemma well_formed_same_owner_twice: "well_formed same_owner_twice"
  by (simp add: well_formed_def clusters_in_range_def same_owner_twice_def)

section \<open>How often a hit is visited\<close>

lemma length_lookup_sequences_of:
  "length (lookup (sequences_of vs) h) = count_list (map fst vs) h"
  by (induction vs) (simp_all add: lookup_sequences_of)

lemma count_lookup_sequences_of:
  "count_list (lookup (sequences_of vs) h) p = count_list vs (h, p)"
  by (induction vs) (auto simp: lookup_sequences_of)

lemma map_fst_cluster_visits:
  "map fst (cluster_visits evt p c) = clusterToHitAssoc evt ! key c"
  by (simp add: cluster_visits_def comp_def)

text \<open>
  The traversal visits a hit once for each place of the hit in a cluster's list, for each
  place of the cluster in a PFParticle's list.
\<close>

lemma count_visits:
  "count_list (map fst (visits evt)) h =
     (\<Sum>i\<leftarrow>[0..<pfParticleHandle_size evt].
        \<Sum>c\<leftarrow>pfParticleToClusterAssoc evt ! i. count_list (clusterToHitAssoc evt ! key c) h)"
  by (simp add: visits_def pfparticle_visits_def map_concat count_list_concat comp_def
        map_fst_cluster_visits)

lemma count_visits_rows:
  assumes "length (pfParticleToClusterAssoc evt) = pfParticleHandle_size evt"
  shows "count_list (map fst (visits evt)) h =
     (\<Sum>row\<leftarrow>pfParticleToClusterAssoc evt.
        \<Sum>c\<leftarrow>row. count_list (clusterToHitAssoc evt ! key c) h)"
proof -
  let ?G = "\<lambda>row. \<Sum>c\<leftarrow>row. count_list (clusterToHitAssoc evt ! key c) h"
  have "map (\<lambda>i. ?G (pfParticleToClusterAssoc evt ! i)) [0..<length (pfParticleToClusterAssoc evt)]
        = map ?G (map ((!) (pfParticleToClusterAssoc evt)) [0..<length (pfParticleToClusterAssoc evt)])"
    by (simp add: comp_def)
  also have "\<dots> = map ?G (pfParticleToClusterAssoc evt)"
    by (simp only: map_nth)
  finally show ?thesis
    by (simp add: count_visits assms [symmetric])
qed

text \<open>The outcome of the scan depends on the map only through the sizes of the vectors of
  the hits of the list.\<close>

lemma audit_outcome_cong:
  assumes "hitHandle_id evt' = hitHandle_id evt" and "hitHandle_size evt' = hitHandle_size evt"
    and "\<And>i. i < hitHandle_size evt \<Longrightarrow>
           length (lookup m' (Ptr (hitHandle_id evt) i)) = length (lookup m (Ptr (hitHandle_id evt) i))"
  shows "audit_outcome evt' m' = audit_outcome evt m"
proof -
  have lt: "i < hitHandle_size evt" if "i < hitHandle_size evt mod 2 ^ 32" for i
    using that by (rule less_le_trans) simp
  have "over_associated evt' m' = over_associated evt m"
    unfolding over_associated_def assms(1,2)
    by (rule filter_cong) (simp_all add: assms(3) lt)
  moreover have "map (\<lambda>i. HitLine i (length (lookup m' (Ptr (hitHandle_id evt) i))))
                    [0..<hitHandle_size evt mod 2 ^ 32] =
                 map (\<lambda>i. HitLine i (length (lookup m (Ptr (hitHandle_id evt) i))))
                    [0..<hitHandle_size evt mod 2 ^ 32]"
    by (rule map_cong) (simp_all add: assms(3) lt)
  ultimately show ?thesis
    by (simp add: audit_outcome_def assms(1,2))
qed

lemma rows_sum_mset:
  fixes g :: "'a \<Rightarrow> nat"
  shows "(\<Sum>row\<leftarrow>rows. \<Sum>c\<leftarrow>row. g c) =
         (\<Sum>r\<in>#mset (map mset rows). \<Sum>c\<in>#r. g c)"
proof -
  have "(\<Sum>c\<leftarrow>row. g c) = (\<Sum>c\<in>#mset row. g c)" for row
    by (simp flip: sum_mset_sum_list)
  then have "(\<Sum>row\<leftarrow>rows. \<Sum>c\<leftarrow>row. g c) = (\<Sum>row\<leftarrow>rows. \<Sum>c\<in>#mset row. g c)"
    by simp
  also have "\<dots> = (\<Sum>r\<in>#mset (map mset rows). \<Sum>c\<in>#r. g c)"
    by (simp flip: sum_mset_sum_list add: image_mset.compositionality comp_def)
  finally show ?thesis .
qed

lemma clusters_in_range_mset:
  "clusters_in_range evt =
     (\<forall>r \<in># mset (map mset (pfParticleToClusterAssoc evt)).
        \<forall>c \<in># r. key c < length (clusterToHitAssoc evt))"
  by (auto simp: clusters_in_range_def)

lemma count_list_filter: "P h \<Longrightarrow> count_list (filter P xs) h = count_list xs h"
  by (induction xs) auto

lemma count_visits_drop_stray_hits:
  assumes rows: "length (pfParticleToClusterAssoc evt) = pfParticleHandle_size evt"
    and range: "clusters_in_range evt"
    and h: "in_hit_list evt h"
  shows "count_list (map fst (visits (drop_stray_hits evt))) h = count_list (map fst (visits evt)) h"
proof -
  have row: "(\<Sum>c\<leftarrow>row. count_list (clusterToHitAssoc (drop_stray_hits evt) ! key c) h) =
             (\<Sum>c\<leftarrow>row. count_list (clusterToHitAssoc evt ! key c) h)"
    if "row \<in> set (pfParticleToClusterAssoc evt)" for row
  proof (rule arg_cong [where f = sum_list], rule map_cong [OF refl])
    fix c
    assume "c \<in> set row"
    with that range have "key c < length (clusterToHitAssoc evt)"
      by (auto simp: clusters_in_range_def)
    then show "count_list (clusterToHitAssoc (drop_stray_hits evt) ! key c) h =
               count_list (clusterToHitAssoc evt ! key c) h"
      using h by (simp add: drop_stray_hits_def count_list_filter)
  qed
  have "length (pfParticleToClusterAssoc (drop_stray_hits evt)) =
        pfParticleHandle_size (drop_stray_hits evt)"
    using rows by (simp add: drop_stray_hits_def)
  then have "count_list (map fst (visits (drop_stray_hits evt))) h =
      (\<Sum>row\<leftarrow>pfParticleToClusterAssoc evt.
         \<Sum>c\<leftarrow>row. count_list (clusterToHitAssoc (drop_stray_hits evt) ! key c) h)"
    by (simp add: count_visits_rows) (simp add: drop_stray_hits_def)
  also have "\<dots> = (\<Sum>row\<leftarrow>pfParticleToClusterAssoc evt.
         \<Sum>c\<leftarrow>row. count_list (clusterToHitAssoc evt ! key c) h)"
    by (rule arg_cong [where f = sum_list], rule map_cong [OF refl]) (rule row)
  finally show ?thesis
    by (simp add: count_visits_rows [OF rows])
qed

lemma count_list_map_pair: "count_list (map (\<lambda>h. (h, p)) xs) (h, p) = count_list xs h"
  by (induction xs) simp_all

lemma sum_list_two_places:
  fixes f :: "'a \<Rightarrow> nat"
  assumes "j < k" and "k < length xs"
  shows "f (xs ! j) + f (xs ! k) \<le> sum_list (map f xs)"
proof -
  from assms have "xs ! j \<in> set (take k xs)"
    by (auto simp: in_set_conv_nth intro!: exI [of _ j])
  then have "f (xs ! j) \<le> sum_list (map f (take k xs))"
    by (intro member_le_sum_list) simp_all
  moreover have "sum_list (map f xs) =
      sum_list (map f (take k xs)) + f (xs ! k) + sum_list (map f (drop (Suc k) xs))"
    by (subst id_take_nth_drop [OF assms(2)]) simp
  ultimately show ?thesis by simp
qed

lemma count_visits_two_clusters:
  assumes "i < pfParticleHandle_size evt" and "j < k"
    and "k < length (pfParticleToClusterAssoc evt ! i)"
    and "h \<in> set (clusterToHitAssoc evt ! key (pfParticleToClusterAssoc evt ! i ! j))"
    and "h \<in> set (clusterToHitAssoc evt ! key (pfParticleToClusterAssoc evt ! i ! k))"
  shows "2 \<le> count_list (visits evt) (h, Ptr (pfParticleHandle_id evt) i)"
proof -
  let ?p = "Ptr (pfParticleHandle_id evt) i"
  let ?f = "\<lambda>c. count_list (clusterToHitAssoc evt ! key c) h"
  let ?row = "pfParticleToClusterAssoc evt ! i"
  from assms(4,5) have "1 \<le> ?f (?row ! j)" and "1 \<le> ?f (?row ! k)"
    using count_list_0_iff [of "clusterToHitAssoc evt ! key (?row ! j)" h]
      count_list_0_iff [of "clusterToHitAssoc evt ! key (?row ! k)" h]
    by simp_all
  then have "2 \<le> ?f (?row ! j) + ?f (?row ! k)"
    by simp
  also have "\<dots> \<le> sum_list (map ?f ?row)"
    using assms(2,3) by (rule sum_list_two_places)
  also have "\<dots> = count_list (pfparticle_visits evt i) (h, ?p)"
    by (simp add: pfparticle_visits_def count_list_concat comp_def cluster_visits_def
          count_list_map_pair)
  also have "\<dots> \<le> (\<Sum>i\<leftarrow>[0..<pfParticleHandle_size evt]. count_list (pfparticle_visits evt i) (h, ?p))"
    using assms(1) by (intro member_le_sum_list) simp_all
  also have "\<dots> = count_list (visits evt) (h, ?p)"
    by (simp add: visits_def count_list_concat comp_def)
  finally show ?thesis .
qed

text \<open>
  What \<^verbatim>\<open>analyze\<close> does on a well-formed event, in terms of the input alone: the number
  written for a hit is the number of visits of the hit, the count is the number of hits of
  the list visited more than once, and \<^verbatim>\<open>std::logic_error\<close> is thrown exactly when there is
  such a hit.
\<close>

lemma verdict_by_vector_sizes:
  assumes "well_formed evt"
  shows "analyze evt =
     Some \<lparr>stdout = map (\<lambda>i. HitLine i (count_list (map fst (visits evt)) (Ptr (hitHandle_id evt) i)))
                         [0..<hitHandle_size evt]
                     @ [SummaryLine (hitHandle_size evt)
                          (length (filter (\<lambda>i. 1 < count_list (map fst (visits evt)) (Ptr (hitHandle_id evt) i))
                                          [0..<hitHandle_size evt]))],
           thrown = (if filter (\<lambda>i. 1 < count_list (map fst (visits evt)) (Ptr (hitHandle_id evt) i))
                               [0..<hitHandle_size evt] = []
                     then None else Some logic_error)\<rparr>"
proof -
  from assms have "hitHandle_size evt mod 2 ^ 32 = hitHandle_size evt"
    by (simp add: well_formed_def)
  with assms show ?thesis
    by (simp add: well_formed_def analyze_eq audit_outcome_def over_associated_def
          length_lookup_sequences_of)
qed

lemma drop_stray_hits_example: "drop_stray_hits stray_hit_two_owners = two_owners"
  by (simp add: drop_stray_hits_def stray_hit_two_owners_def two_owners_def in_hit_list_def)

section \<open>The verdict\<close>


text \<open>
  Claim C2. The specification classifies a hit by the number of distinct PFParticles
  associated with it. The code classifies it by the size of its vector (lines 124 and 128).
  On \<open>same_owner_twice\<close> the only PFParticle reaches the only hit through both of its
  clusters: the vector of the hit is that PFParticle twice, one distinct PFParticle, and
  \<^verbatim>\<open>analyze\<close> writes 2 for the hit, counts it and throws \<^verbatim>\<open>std::logic_error\<close>.
\<close>

theorem same_owner_twice_is_counted:
  "pfparticle_loop same_owner_twice 0 Map.empty =
     Some (Inr (sequences_of (visits same_owner_twice))) \<and>
   lookup (sequences_of (visits same_owner_twice)) (Ptr 2 0) = [Ptr 1 0, Ptr 1 0] \<and>
   card (set (lookup (sequences_of (visits same_owner_twice)) (Ptr 2 0))) = 1 \<and>
   analyze same_owner_twice =
     Some \<lparr>stdout = [HitLine 0 2, SummaryLine 1 1], thrown = Some logic_error\<rparr>"
proof -
  have seq: "lookup (sequences_of (visits same_owner_twice)) (Ptr 2 0) = [Ptr 1 0, Ptr 1 0]"
    by (simp add: lookup_sequences_of visits_def pfparticle_visits_def cluster_visits_def
          same_owner_twice_def)
  have "pfparticle_loop same_owner_twice 0 Map.empty =
      Some (Inr (sequences_of (visits same_owner_twice)))"
    using well_formed_same_owner_twice by (simp add: well_formed_def resolver_eq)
  moreover have "analyze same_owner_twice =
     Some \<lparr>stdout = [HitLine 0 2, SummaryLine 1 1], thrown = Some logic_error\<rparr>"
    by code_simp
  ultimately show ?thesis
    by (simp add: seq)
qed

text \<open>
  Claim C3. Violation detection: on a well-formed event in which some hit of the hit list is
  associated, through the two relations, with two different PFParticles, \<^verbatim>\<open>analyze\<close> throws
  \<^verbatim>\<open>std::logic_error\<close> and the count it reports is at least 1.
\<close>

theorem violation_detected:
  assumes "well_formed evt"
    and "i < hitHandle_size evt"
    and "associated evt (Ptr (hitHandle_id evt) i) p"
    and "associated evt (Ptr (hitHandle_id evt) i) q"
    and "p \<noteq> q"
  shows "\<exists>out nHits nMulti.
           analyze evt = Some \<lparr>stdout = out @ [SummaryLine nHits nMulti], thrown = Some logic_error\<rparr> \<and>
           1 \<le> nMulti"
proof -
  let ?m = "sequences_of (visits evt)"
  let ?h = "Ptr (hitHandle_id evt) i"
  from assms(1) have run: "analyze evt = Some (audit_outcome evt ?m)"
    by (simp add: well_formed_def analyze_eq)
  from assms(3,4) have "p \<in> set (lookup ?m ?h)" and "q \<in> set (lookup ?m ?h)"
    by (simp_all add: in_lookup_sequences_of in_visits)
  then have "2 \<le> length (lookup ?m ?h)"
    using \<open>p \<noteq> q\<close> by (rule two_in_list)
  moreover from assms(1,2) have "i < hitHandle_size evt mod 2 ^ 32"
    by (simp add: well_formed_def)
  ultimately have "i \<in> set (over_associated evt ?m)"
    by (simp add: over_associated_def)
  then have "over_associated evt ?m \<noteq> []" and "1 \<le> length (over_associated evt ?m)"
    by (auto simp: Suc_le_eq)
  with run show ?thesis
    by (simp add: audit_outcome_def)
qed

theorem violation_detected_witness:
  "well_formed two_owners \<and> 0 < hitHandle_size two_owners \<and>
   associated two_owners (Ptr (hitHandle_id two_owners) 0) (Ptr 1 0) \<and>
   associated two_owners (Ptr (hitHandle_id two_owners) 0) (Ptr 1 1) \<and>
   Ptr 1 0 \<noteq> Ptr 1 1 \<and>
   (\<exists>out nHits nMulti.
      analyze two_owners =
        Some \<lparr>stdout = out @ [SummaryLine nHits nMulti], thrown = Some logic_error\<rparr> \<and>
      1 \<le> nMulti)"
proof -
  have i: "0 < hitHandle_size two_owners"
    by (simp add: two_owners_def)
  have p: "associated two_owners (Ptr (hitHandle_id two_owners) 0) (Ptr 1 0)"
    by (simp add: associated_def two_owners_def)
  have q: "associated two_owners (Ptr (hitHandle_id two_owners) 0) (Ptr 1 1)"
    by (simp add: associated_def two_owners_def)
  have ne: "Ptr 1 0 \<noteq> Ptr 1 1"
    by simp
  from well_formed_two_owners i p q ne
    violation_detected [OF well_formed_two_owners i p q ne]
  show ?thesis
    by blast
qed

text \<open>
  Claim C4. The specification lets the check pass when every hit has at most one distinct
  PFParticle. On \<open>split_owner\<close> hit 0 has the first PFParticle only and hit 1 the second
  only, but hit 0 is in both clusters of the first PFParticle: \<^verbatim>\<open>analyze\<close> writes 2 for
  hit 0, reports one multi-associated hit and throws \<^verbatim>\<open>std::logic_error\<close>.
\<close>

theorem split_owner_fails:
  "pfparticle_loop split_owner 0 Map.empty = Some (Inr (sequences_of (visits split_owner))) \<and>
   set (lookup (sequences_of (visits split_owner)) (Ptr 2 0)) = {Ptr 1 0} \<and>
   set (lookup (sequences_of (visits split_owner)) (Ptr 2 1)) = {Ptr 1 1} \<and>
   analyze split_owner =
     Some \<lparr>stdout = [HitLine 0 2, HitLine 1 1, SummaryLine 2 1], thrown = Some logic_error\<rparr>"
proof -
  have "well_formed split_owner"
    by (simp add: well_formed_def clusters_in_range_def split_owner_def)
  then have "pfparticle_loop split_owner 0 Map.empty =
      Some (Inr (sequences_of (visits split_owner)))"
    by (simp add: well_formed_def resolver_eq)
  moreover have "visits split_owner = [(Ptr 2 0, Ptr 1 0), (Ptr 2 0, Ptr 1 0), (Ptr 2 1, Ptr 1 1)]"
    by (simp add: visits_def pfparticle_visits_def cluster_visits_def split_owner_def
          upt_conv_Cons numeral_2_eq_2)
  moreover have "analyze split_owner =
     Some \<lparr>stdout = [HitLine 0 2, HitLine 1 1, SummaryLine 2 1], thrown = Some logic_error\<rparr>"
    by code_simp
  ultimately show ?thesis
    by (simp add: lookup_sequences_of)
qed

section \<open>The derived relation\<close>

text \<open>
  Claim C5. Transitivity: on a well-formed event the loops return a map, and a PFParticle is
  in the vector of a hit if and only if some cluster of the PFParticle's cluster list has
  the hit in its hit list. Nothing else is in the map and nothing reachable is missing.
\<close>

theorem derived_relation_is_two_hop:
  assumes "well_formed evt"
  shows "\<exists>m. pfparticle_loop evt 0 Map.empty = Some (Inr m) \<and>
             (\<forall>pHit pPFParticle.
                pPFParticle \<in> set (lookup m pHit) \<longleftrightarrow> associated evt pHit pPFParticle)"
proof -
  from assms have "pfparticle_loop evt 0 Map.empty = Some (Inr (sequences_of (visits evt)))"
    by (simp add: well_formed_def resolver_eq)
  then show ?thesis
    by (simp add: in_lookup_sequences_of in_visits)
qed

theorem derived_relation_is_two_hop_witness:
  "well_formed two_owners \<and>
   (\<exists>m. pfparticle_loop two_owners 0 Map.empty = Some (Inr m) \<and>
        (\<forall>pHit pPFParticle.
           pPFParticle \<in> set (lookup m pHit) \<longleftrightarrow> associated two_owners pHit pPFParticle))"
  using derived_relation_is_two_hop [OF well_formed_two_owners] well_formed_two_owners
  by simp

text \<open>
  Claim C6. Construction order, no deduplication: on a well-formed event the map the loops
  return is the map of the traversal worded in the specification (PFParticles in input
  order, clusters in relation order, hits in relation order, each visit appending the
  PFParticle to the hit's sequence, an entry existing from the first visit on).
  Consequently a PFParticle that reaches a hit through two places of its cluster list is at
  least twice in the hit's sequence.
\<close>

theorem map_follows_traversal_order:
  assumes "well_formed evt"
  shows "pfparticle_loop evt 0 Map.empty = Some (Inr (sequences_of (visits evt))) \<and>
         (\<forall>i j k pHit.
            i < pfParticleHandle_size evt \<and> j < k \<and> k < length (pfParticleToClusterAssoc evt ! i) \<and>
            pHit \<in> set (clusterToHitAssoc evt ! key (pfParticleToClusterAssoc evt ! i ! j)) \<and>
            pHit \<in> set (clusterToHitAssoc evt ! key (pfParticleToClusterAssoc evt ! i ! k)) \<longrightarrow>
            2 \<le> count_list (lookup (sequences_of (visits evt)) pHit) (Ptr (pfParticleHandle_id evt) i))"
proof
  from assms show "pfparticle_loop evt 0 Map.empty = Some (Inr (sequences_of (visits evt)))"
    by (simp add: well_formed_def resolver_eq)
  show "\<forall>i j k pHit.
            i < pfParticleHandle_size evt \<and> j < k \<and> k < length (pfParticleToClusterAssoc evt ! i) \<and>
            pHit \<in> set (clusterToHitAssoc evt ! key (pfParticleToClusterAssoc evt ! i ! j)) \<and>
            pHit \<in> set (clusterToHitAssoc evt ! key (pfParticleToClusterAssoc evt ! i ! k)) \<longrightarrow>
            2 \<le> count_list (lookup (sequences_of (visits evt)) pHit) (Ptr (pfParticleHandle_id evt) i)"
    by (auto simp: count_lookup_sequences_of intro: count_visits_two_clusters)
qed

theorem map_follows_traversal_order_witness:
  "well_formed same_owner_twice \<and>
   pfparticle_loop same_owner_twice 0 Map.empty =
     Some (Inr (sequences_of (visits same_owner_twice))) \<and>
   visits same_owner_twice = [(Ptr 2 0, Ptr 1 0), (Ptr 2 0, Ptr 1 0)] \<and>
   2 \<le> count_list (lookup (sequences_of (visits same_owner_twice)) (Ptr 2 0)) (Ptr 1 0)"
proof -
  have vs: "visits same_owner_twice = [(Ptr 2 0, Ptr 1 0), (Ptr 2 0, Ptr 1 0)]"
    by (simp add: visits_def pfparticle_visits_def cluster_visits_def same_owner_twice_def)
  have places: "0 < pfParticleHandle_size same_owner_twice \<and> (0::nat) < 1 \<and>
      1 < length (pfParticleToClusterAssoc same_owner_twice ! 0) \<and>
      Ptr 2 0 \<in> set (clusterToHitAssoc same_owner_twice !
                        key (pfParticleToClusterAssoc same_owner_twice ! 0 ! 0)) \<and>
      Ptr 2 0 \<in> set (clusterToHitAssoc same_owner_twice !
                        key (pfParticleToClusterAssoc same_owner_twice ! 0 ! 1))"
    by (simp add: same_owner_twice_def)
  have id: "pfParticleHandle_id same_owner_twice = 1"
    by (simp add: same_owner_twice_def)
  from map_follows_traversal_order [OF well_formed_same_owner_twice] places
  have "pfparticle_loop same_owner_twice 0 Map.empty =
          Some (Inr (sequences_of (visits same_owner_twice)))"
    and "2 \<le> count_list (lookup (sequences_of (visits same_owner_twice)) (Ptr 2 0))
                (Ptr (pfParticleHandle_id same_owner_twice) 0)"
    by blast+
  with well_formed_same_owner_twice vs show ?thesis
    by (simp only: id)
qed

section \<open>The scan\<close>

text \<open>
  Claim C7. Coverage: on a well-formed event the summary reports the length of the hit list
  as the total, and there is one line per hit of the list, in list order, giving the size
  of its vector; a hit that is not a key of the map is reported with 0.
\<close>

theorem total_is_length_of_hit_list:
  assumes "well_formed evt"
  shows "\<exists>m nMulti e.
           pfparticle_loop evt 0 Map.empty = Some (Inr m) \<and>
           analyze evt =
             Some \<lparr>stdout = map (\<lambda>i. HitLine i (length (lookup m (Ptr (hitHandle_id evt) i))))
                                 [0..<hitHandle_size evt]
                             @ [SummaryLine (hitHandle_size evt) nMulti],
                   thrown = e\<rparr>"
proof -
  from assms have "pfparticle_loop evt 0 Map.empty = Some (Inr (sequences_of (visits evt)))"
    and "hitHandle_size evt mod 2 ^ 32 = hitHandle_size evt"
    by (simp_all add: well_formed_def resolver_eq)
  then show ?thesis
    by (simp add: analyze_cases audit_outcome_def)
qed

theorem total_is_length_of_hit_list_witness:
  "well_formed one_owner \<and>
   (\<exists>m nMulti e.
      pfparticle_loop one_owner 0 Map.empty = Some (Inr m) \<and>
      analyze one_owner =
        Some \<lparr>stdout = map (\<lambda>i. HitLine i (length (lookup m (Ptr (hitHandle_id one_owner) i))))
                            [0..<hitHandle_size one_owner]
                        @ [SummaryLine (hitHandle_size one_owner) nMulti],
              thrown = e\<rparr>)"
  using total_is_length_of_hit_list [OF well_formed_one_owner] well_formed_one_owner
  by simp

text \<open>
  Claim C8. Order independence: when the PFParticle collection can be counted by an
  \<^verbatim>\<open>unsigned int\<close> and the PFParticle query has one row per PFParticle, permuting the rows
  of the query (the order of the PFParticles) and permuting the clusters inside each row
  changes neither what \<^verbatim>\<open>analyze\<close> writes (so neither total nor count) nor what it throws.
\<close>

theorem verdict_independent_of_order:
  assumes "pfParticleHandle_size evt < 2 ^ 32"
    and "length (pfParticleToClusterAssoc evt) = pfParticleHandle_size evt"
    and "mset (map mset rows) = mset (map mset (pfParticleToClusterAssoc evt))"
  shows "analyze (evt\<lparr>pfParticleToClusterAssoc := rows\<rparr>) = analyze evt"
proof -
  let ?evt' = "evt\<lparr>pfParticleToClusterAssoc := rows\<rparr>"
  have "size (mset (map mset rows)) = size (mset (map mset (pfParticleToClusterAssoc evt)))"
    by (simp only: assms(3))
  then have len: "length (pfParticleToClusterAssoc ?evt') = pfParticleHandle_size ?evt'"
    using assms(2) by simp
  have size: "pfParticleHandle_size ?evt' < 2 ^ 32"
    using assms(1) by simp
  have rows: "pfParticleToClusterAssoc ?evt' = rows"
    and hits: "clusterToHitAssoc ?evt' = clusterToHitAssoc evt"
    by simp_all
  have range: "clusters_in_range ?evt' = clusters_in_range evt"
    unfolding clusters_in_range_mset rows hits assms(3) ..
  have "count_list (map fst (visits ?evt')) h = count_list (map fst (visits evt)) h" for h
    unfolding count_visits_rows [OF len] count_visits_rows [OF assms(2)] rows hits
      rows_sum_mset assms(3) ..
  then have "audit_outcome ?evt' (sequences_of (visits ?evt')) =
             audit_outcome evt (sequences_of (visits evt))"
    by (intro audit_outcome_cong) (simp_all add: length_lookup_sequences_of)
  then show ?thesis
    by (simp only: analyze_eq [OF size len] analyze_eq [OF assms(1,2)] range)
qed

theorem verdict_independent_of_order_witness:
  "pfParticleHandle_size two_owners < 2 ^ 32 \<and>
   length (pfParticleToClusterAssoc two_owners) = pfParticleHandle_size two_owners \<and>
   mset (map mset [[Ptr 3 1], [Ptr 3 0]]) = mset (map mset (pfParticleToClusterAssoc two_owners)) \<and>
   analyze two_owners_swapped = analyze two_owners"
proof -
  have size: "pfParticleHandle_size two_owners < 2 ^ 32"
    and len: "length (pfParticleToClusterAssoc two_owners) = pfParticleHandle_size two_owners"
    by (simp_all add: two_owners_def)
  have perm: "mset (map mset [[Ptr 3 1], [Ptr 3 0]]) =
              mset (map mset (pfParticleToClusterAssoc two_owners))"
    by (simp add: two_owners_def add_mset_commute)
  from verdict_independent_of_order [OF size len perm] size len perm show ?thesis
    by (simp only: two_owners_swapped_def)
qed

section \<open>References outside the collections\<close>

text \<open>
  Claim C9, as stated, fails: \<open>stray_hit\<close> has a cluster whose hit list refers to a hit that is
  not in the hit list, and \<^verbatim>\<open>analyze\<close> returns normally, reporting no multi-associated hit.
\<close>

theorem stray_hit_passes:
  "references_stray_hit stray_hit \<and>
   analyze stray_hit = Some \<lparr>stdout = [HitLine 0 0, SummaryLine 1 0], thrown = None\<rparr>"
proof
  show "references_stray_hit stray_hit"
    by (simp add: references_stray_hit_def in_hit_list_def stray_hit_def)
  show "analyze stray_hit = Some \<lparr>stdout = [HitLine 0 0, SummaryLine 1 0], thrown = None\<rparr>"
    by code_simp
qed

text \<open>
  Claim C9, amended. When the PFParticle collection can be counted by an \<^verbatim>\<open>unsigned int\<close>
  and the PFParticle query has one row per PFParticle: a reference to a cluster outside the
  cluster query is detected, \<^verbatim>\<open>analyze\<close> throwing \<^verbatim>\<open>std::out_of_range\<close> before it writes
  anything; a reference to a hit outside the hit list is not detected, \<^verbatim>\<open>analyze\<close> writing
  a line only for hits of the list, and writing and throwing what it does for the event
  without such references.
\<close>

theorem stray_cluster_detected_stray_hit_ignored:
  assumes "pfParticleHandle_size evt < 2 ^ 32"
    and "length (pfParticleToClusterAssoc evt) = pfParticleHandle_size evt"
  shows "(\<not> clusters_in_range evt \<longrightarrow>
            analyze evt = Some \<lparr>stdout = [], thrown = Some out_of_range\<rparr>) \<and>
         analyze (drop_stray_hits evt) = analyze evt \<and>
         (\<exists>r. analyze evt = Some r \<and>
              (\<forall>k n. HitLine k n \<in> set (stdout r) \<longrightarrow> k < hitHandle_size evt))"
proof (intro conjI)
  show "\<not> clusters_in_range evt \<longrightarrow> analyze evt = Some \<lparr>stdout = [], thrown = Some out_of_range\<rparr>"
    by (simp add: analyze_eq [OF assms])
next
  let ?evt' = "drop_stray_hits evt"
  have size: "pfParticleHandle_size ?evt' < 2 ^ 32"
    and len: "length (pfParticleToClusterAssoc ?evt') = pfParticleHandle_size ?evt'"
    using assms by (simp_all add: drop_stray_hits_def)
  have range: "clusters_in_range ?evt' = clusters_in_range evt"
    by (simp add: clusters_in_range_def drop_stray_hits_def)
  show "analyze ?evt' = analyze evt"
  proof (cases "clusters_in_range evt")
    case False
    then show ?thesis
      by (simp add: analyze_eq [OF size len] analyze_eq [OF assms] range)
  next
    case True
    have "audit_outcome ?evt' (sequences_of (visits ?evt')) =
          audit_outcome evt (sequences_of (visits evt))"
    proof (rule audit_outcome_cong)
      fix i
      assume "i < hitHandle_size evt"
      then have "in_hit_list evt (Ptr (hitHandle_id evt) i)"
        by (simp add: in_hit_list_def)
      then show "length (lookup (sequences_of (visits ?evt')) (Ptr (hitHandle_id evt) i)) =
                 length (lookup (sequences_of (visits evt)) (Ptr (hitHandle_id evt) i))"
        by (simp add: length_lookup_sequences_of count_visits_drop_stray_hits [OF assms(2) True])
    qed (simp_all add: drop_stray_hits_def)
    with True show ?thesis
      by (simp add: analyze_eq [OF size len] analyze_eq [OF assms] range)
  qed
next
  have le: "k < hitHandle_size evt" if "k < hitHandle_size evt mod 2 ^ 32" for k
    using that by (rule less_le_trans) simp
  show "\<exists>r. analyze evt = Some r \<and>
              (\<forall>k n. HitLine k n \<in> set (stdout r) \<longrightarrow> k < hitHandle_size evt)"
    by (auto simp: analyze_eq [OF assms] audit_outcome_def le)
qed

theorem stray_cluster_detected_stray_hit_ignored_witness:
  "pfParticleHandle_size stray_cluster < 2 ^ 32 \<and>
   length (pfParticleToClusterAssoc stray_cluster) = pfParticleHandle_size stray_cluster \<and>
   \<not> clusters_in_range stray_cluster \<and>
   analyze stray_cluster = Some \<lparr>stdout = [], thrown = Some out_of_range\<rparr> \<and>
   pfParticleHandle_size stray_hit_two_owners < 2 ^ 32 \<and>
   length (pfParticleToClusterAssoc stray_hit_two_owners) =
     pfParticleHandle_size stray_hit_two_owners \<and>
   references_stray_hit stray_hit_two_owners \<and>
   drop_stray_hits stray_hit_two_owners = two_owners \<and>
   two_owners \<noteq> stray_hit_two_owners \<and>
   analyze stray_hit_two_owners =
     Some \<lparr>stdout = [HitLine 0 2, HitLine 1 1, SummaryLine 2 1], thrown = Some logic_error\<rparr> \<and>
   0 < hitHandle_size stray_hit_two_owners \<and> 1 < hitHandle_size stray_hit_two_owners"
proof -
  have size: "pfParticleHandle_size stray_cluster < 2 ^ 32"
    and len: "length (pfParticleToClusterAssoc stray_cluster) = pfParticleHandle_size stray_cluster"
    and range: "\<not> clusters_in_range stray_cluster"
    by (simp_all add: stray_cluster_def clusters_in_range_def)
  have size': "pfParticleHandle_size stray_hit_two_owners < 2 ^ 32"
    and len': "length (pfParticleToClusterAssoc stray_hit_two_owners) =
               pfParticleHandle_size stray_hit_two_owners"
    by (simp_all add: stray_hit_two_owners_def two_owners_def)
  have stray: "references_stray_hit stray_hit_two_owners"
    by (simp add: references_stray_hit_def in_hit_list_def stray_hit_two_owners_def two_owners_def)
  have ne: "two_owners \<noteq> stray_hit_two_owners"
    by (simp add: stray_hit_two_owners_def two_owners_def)
  from stray_cluster_detected_stray_hit_ignored [OF size len] range
  have a: "analyze stray_cluster = Some \<lparr>stdout = [], thrown = Some out_of_range\<rparr>"
    by simp
  from stray_cluster_detected_stray_hit_ignored [OF size' len']
  have b: "analyze stray_hit_two_owners =
     Some \<lparr>stdout = [HitLine 0 2, HitLine 1 1, SummaryLine 2 1], thrown = Some logic_error\<rparr>"
    by (simp add: drop_stray_hits_example analyze_two_owners)
  from stray_cluster_detected_stray_hit_ignored [OF size' len'] obtain r where "analyze stray_hit_two_owners = Some r"
    and lines: "\<forall>k n. HitLine k n \<in> set (stdout r) \<longrightarrow> k < hitHandle_size stray_hit_two_owners"
    by blast
  with b have "stdout r = [HitLine 0 2, HitLine 1 1, SummaryLine 2 1]"
    by simp
  then have "HitLine 0 2 \<in> set (stdout r)" and "HitLine 1 1 \<in> set (stdout r)"
    by simp_all
  with lines
  have c: "0 < hitHandle_size stray_hit_two_owners \<and> 1 < hitHandle_size stray_hit_two_owners"
    by blast
  from size len range a size' len' stray ne b c show ?thesis
    by (simp only: drop_stray_hits_example simp_thms)
qed

section \<open>The throw comes last\<close>

text \<open>
  Claim C10. The exception is thrown only after the scan: when \<^verbatim>\<open>analyze\<close> throws
  \<^verbatim>\<open>std::logic_error\<close> (and the hit list can be counted by an \<^verbatim>\<open>unsigned int\<close>), it has
  written one line for every hit of the list, in list order, and then the summary, whose
  total is the length of the list and whose count is over the whole list.
\<close>

theorem scan_completes_before_throw:
  assumes "analyze evt = Some r"
    and "thrown r = Some logic_error"
    and "hitHandle_size evt < 2 ^ 32"
  shows "\<exists>m. pfparticle_loop evt 0 Map.empty = Some (Inr m) \<and>
             stdout r =
               map (\<lambda>i. HitLine i (length (lookup m (Ptr (hitHandle_id evt) i))))
                   [0..<hitHandle_size evt]
               @ [SummaryLine (hitHandle_size evt)
                    (length (filter (\<lambda>i. 1 < length (lookup m (Ptr (hitHandle_id evt) i)))
                                    [0..<hitHandle_size evt]))]"
proof -
  from assms(1,2) obtain m where m: "pfparticle_loop evt 0 Map.empty = Some (Inr m)"
    and r: "r = audit_outcome evt m"
    by (auto simp: analyze_cases split: option.splits sum.splits dest: pfparticle_loop_Inl)
  from assms(3) have "hitHandle_size evt mod 2 ^ 32 = hitHandle_size evt"
    by simp
  with m r show ?thesis
    by (simp add: audit_outcome_def over_associated_def)
qed

theorem scan_completes_before_throw_witness:
  "analyze two_owners =
     Some \<lparr>stdout = [HitLine 0 2, HitLine 1 1, SummaryLine 2 1], thrown = Some logic_error\<rparr> \<and>
   hitHandle_size two_owners < 2 ^ 32 \<and>
   (\<exists>m. pfparticle_loop two_owners 0 Map.empty = Some (Inr m) \<and>
        [HitLine 0 2, HitLine 1 1, SummaryLine 2 1] =
          map (\<lambda>i. HitLine i (length (lookup m (Ptr (hitHandle_id two_owners) i))))
              [0..<hitHandle_size two_owners]
          @ [SummaryLine (hitHandle_size two_owners)
               (length (filter (\<lambda>i. 1 < length (lookup m (Ptr (hitHandle_id two_owners) i)))
                               [0..<hitHandle_size two_owners]))])"
proof -
  have size: "hitHandle_size two_owners < 2 ^ 32"
    by (simp add: two_owners_def)
  from scan_completes_before_throw [OF analyze_two_owners _ size] analyze_two_owners size
  show ?thesis
    by simp
qed

end
